theory Spec2Isabelle
  imports Main
begin

section \<open>Data model of bibletext/models/bibles.py\<close>

text \<open>
  The exceptions that the modelled code can let escape. \<open>IndexError\<close> comes from
  indexing a string out of range, \<open>ValueError\<close> from Python's \<open>len\<close> when
  \<open>__len__\<close> answers a negative number, \<open>ParserError\<close> stands for any exception
  raised inside the python-bible library (the specification's InvalidReference),
  \<open>DoesNotExist\<close> and \<open>MultipleObjectsReturned\<close> are the two exceptions of
  the ORM's \<open>get\<close> (\<open>DoesNotExist\<close> is the specification's NotFound).
\<close>

datatype error = IndexError | ValueError | ParserError | DoesNotExist | MultipleObjectsReturned

text \<open>
  One stored record of a \<open>VerseText\<close> table: the primary key \<open>id\<close> (the verse
  ordinal), the foreign key \<open>book_id\<close>, and the fields \<open>chapter\<close>, \<open>verse\<close>
  and \<open>text\<close> (here \<open>chapter_no\<close> and \<open>verse_text\<close>). Python integers are
  unbounded, hence \<open>int\<close>.
\<close>

record verse_row =
  pk :: int
  book_id :: int
  chapter_no :: int
  verse :: int
  verse_text :: string

text \<open>
  An in-memory \<open>VerseText\<close> instance: the stored fields plus the two attributes
  \<open>_next_verse\<close> and \<open>_prev_verse\<close> that the navigation properties create on first
  use. \<open>None\<close> means the attribute does not exist yet (\<open>hasattr\<close> is false),
  \<open>Some None\<close> that it holds Python's \<open>None\<close>, \<open>Some (Some v)\<close> that it holds
  an instance.
\<close>

datatype VerseText =
  VerseText (row_of: verse_row)
            (attr_next_verse: "VerseText option option")
            (attr_prev_verse: "VerseText option option")

text \<open>
  The python-bible module is an external library. Its three entry points used by the code
  are parameters of the model: \<open>Verse\<close> parses a reference into (book, chapter, verse),
  \<open>Passage\<close> builds a passage object from two references, and \<open>Passage_len\<close> is the
  passage's \<open>__len__\<close>. \<open>None\<close> means that the library raised an exception.
\<close>

record 'p bible =
  Verse :: "string \<Rightarrow> (int \<times> int \<times> int) option"
  Passage :: "string \<Rightarrow> string \<Rightarrow> 'p option"
  Passage_len :: "'p \<Rightarrow> int option"

section \<open>BiblePassageManager\<close>

text \<open>
  Lines 40-41, 54-55 and 56-57 are the same statement on three variables:
  \<^verbatim>\<open>if self.model.translation and reference[-3] != self.model.translation:
      reference += ' '+self.model.translation\<close>
  The class attribute \<open>translation\<close> is \<open>None\<close> or a string; \<open>None\<close> and the empty
  string are false, and then \<open>reference[-3]\<close> is not evaluated. Otherwise
  \<open>reference[-3]\<close> raises IndexError on a string of fewer than three characters and
  is the one-character string at that position on a longer one.
\<close>

definition with_translation :: "string option \<Rightarrow> string \<Rightarrow> error + string" where
  "with_translation translation reference =
     (case translation of
        None \<Rightarrow> Inr reference
      | Some t \<Rightarrow>
          if t = [] then Inr reference
          else if length reference < 3 then Inl IndexError
          else if [reference ! (length reference - 3)] \<noteq> t then Inr (reference @ '' '' @ t)
          else Inr reference)"

text \<open>
  The ORM's \<open>get\<close> on a table (a list of records): the single record that satisfies the
  condition, as a new instance without cached attributes; \<open>DoesNotExist\<close> when there
  is none and \<open>MultipleObjectsReturned\<close> when there are several.
\<close>

definition objects_get :: "(verse_row \<Rightarrow> bool) \<Rightarrow> verse_row list \<Rightarrow> error + VerseText" where
  "objects_get cond table =
     (case filter cond table of
        [] \<Rightarrow> Inl DoesNotExist
      | [r] \<Rightarrow> Inr (VerseText r None None)
      | _ \<Rightarrow> Inl MultipleObjectsReturned)"

text \<open>
  \<open>BiblePassageManager.verse\<close>, lines 38-43. The lookup \<open>book__pk\<close> is on the key of
  the book that the foreign key \<open>book_id\<close> points to.
\<close>

definition BiblePassageManager_verse ::
  "'p bible \<Rightarrow> string option \<Rightarrow> verse_row list \<Rightarrow> string \<Rightarrow> error + VerseText" where
  "BiblePassageManager_verse lib translation table reference =
     (case with_translation translation reference of
        Inl e \<Rightarrow> Inl e
      | Inr reference' \<Rightarrow>
          (case Verse lib reference' of
             None \<Rightarrow> Inl ParserError
           | Some (b, c, v) \<Rightarrow>
               objects_get (\<lambda>r. book_id r = b \<and> chapter_no r = c \<and> verse r = v) table))"

text \<open>
  Python's \<open>len\<close> on a passage object: it calls \<open>__len__\<close> and raises ValueError when
  the answer is negative.
\<close>

definition len :: "'p bible \<Rightarrow> 'p \<Rightarrow> error + nat" where
  "len lib p =
     (case Passage_len lib p of
        None \<Rightarrow> Inl ParserError
      | Some n \<Rightarrow> if n < 0 then Inl ValueError else Inr (nat n))"

text \<open>Lines 62-64: the anchor reference, qualified when the translation is set.\<close>

definition in_the_beginning :: "string option \<Rightarrow> string" where
  "in_the_beginning translation =
     (case translation of
        None \<Rightarrow> ''Genesis 1:1''
      | Some t \<Rightarrow> if t = [] then ''Genesis 1:1'' else ''Genesis 1:1'' @ '' '' @ t)"

text \<open>
  Line 66: \<^verbatim>\<open>order_by('id').filter(pk__gte = start_pk)[:len(passage)]\<close>, the first
  \<open>n\<close> records, in ascending order of the key, among those whose key is at least
  \<open>start_pk\<close>. The query set is lazy; the model gives the records it yields.
\<close>

definition passage_query :: "verse_row list \<Rightarrow> nat \<Rightarrow> nat \<Rightarrow> verse_row list" where
  "passage_query table start_pk n =
     take n (filter (\<lambda>r. int start_pk \<le> pk r) (sort_key pk table))"

text \<open>
  Lines 51-52: \<open>end_reference\<close> is an optional argument, and \<open>not end_reference\<close>
  holds for \<open>None\<close> and for the empty string.
\<close>

definition end_or_start :: "string \<Rightarrow> string option \<Rightarrow> string" where
  "end_or_start start_reference end_reference =
     (case end_reference of
        None \<Rightarrow> start_reference
      | Some e \<Rightarrow> if e = [] then start_reference else e)"

text \<open>
  \<open>BiblePassageManager.passage\<close>, lines 45-66. The two references are qualified
  first, then the passage object is built (line 60), then the anchor passage is built and
  measured (line 65), then the passage is measured and the query is sliced (line 66).
\<close>

definition BiblePassageManager_passage ::
  "'p bible \<Rightarrow> string option \<Rightarrow> verse_row list \<Rightarrow> string \<Rightarrow> string option
     \<Rightarrow> error + VerseText list" where
  "BiblePassageManager_passage lib translation table start_reference end_reference =
     (case with_translation translation start_reference of
           Inl e \<Rightarrow> Inl e
         | Inr start_reference' \<Rightarrow>
      (case with_translation translation (end_or_start start_reference end_reference) of
           Inl e \<Rightarrow> Inl e
         | Inr end_reference' \<Rightarrow>
      (case Passage lib start_reference' end_reference' of
           None \<Rightarrow> Inl ParserError
         | Some passage \<Rightarrow>
      (case Passage lib (in_the_beginning translation) start_reference' of
           None \<Rightarrow> Inl ParserError
         | Some from_the_beginning \<Rightarrow>
      (case len lib from_the_beginning of
           Inl e \<Rightarrow> Inl e
         | Inr start_pk \<Rightarrow>
      (case len lib passage of
           Inl e \<Rightarrow> Inl e
         | Inr n \<Rightarrow>
             Inr (map (\<lambda>r. VerseText r None None) (passage_query table start_pk n))))))))"

section \<open>VerseText\<close>

text \<open>
  The class attribute \<open>versions\<close> is absent (\<open>None\<close>) until the first call of
  \<open>register_version\<close>, which creates it as the empty list (lines 104-105).
\<close>

definition versions_of :: "int list option \<Rightarrow> int list" where
  "versions_of versions_attr = (case versions_attr of None \<Rightarrow> [] | Some registered \<Rightarrow> registered)"

text \<open>
  \<open>VerseText.register_version\<close>, lines 93-110: the class attribute before the call and
  the versions passed give the class attribute after the call. \<open>content_type_pk\<close> is the
  key of the content type that the framework assigns to a model class
  (\<^verbatim>\<open>ContentType.objects.get_for_model(version).pk\<close>).
\<close>

definition register_version :: "('m \<Rightarrow> int) \<Rightarrow> int list option \<Rightarrow> 'm list \<Rightarrow> int list option" where
  "register_version content_type_pk versions_attr versions =
     Some (foldl (\<lambda>registered version.
                    if content_type_pk version \<notin> set registered
                    then registered @ [content_type_pk version]
                    else registered)
                 (versions_of versions_attr)
                 versions)"

text \<open>
  The property \<open>next_verse\<close>, lines 130-139. The result is the value returned (or the
  exception that escapes) together with the instance after the call. Only
  \<open>DoesNotExist\<close> is caught.
\<close>

definition next_verse :: "verse_row list \<Rightarrow> VerseText \<Rightarrow> (error + VerseText option) \<times> VerseText" where
  "next_verse table self =
     (case attr_next_verse self of
        Some cached \<Rightarrow> (Inr cached, self)
      | None \<Rightarrow>
          (case objects_get (\<lambda>r. pk r = pk (row_of self) + 1) table of
             Inr v \<Rightarrow> (Inr (Some v), VerseText (row_of self) (Some (Some v)) (attr_prev_verse self))
           | Inl DoesNotExist \<Rightarrow> (Inr None, VerseText (row_of self) (Some None) (attr_prev_verse self))
           | Inl e \<Rightarrow> (Inl e, self)))"

text \<open>
  The property \<open>prev_verse\<close>, lines 141-149. The lookup of line 148 is not inside a
  \<open>try\<close>: its exception escapes and the attribute is not set.
\<close>

definition prev_verse :: "verse_row list \<Rightarrow> VerseText \<Rightarrow> (error + VerseText option) \<times> VerseText" where
  "prev_verse table self =
     (case attr_prev_verse self of
        Some cached \<Rightarrow> (Inr cached, self)
      | None \<Rightarrow>
          if book_id (row_of self) = 1 \<and> chapter_no (row_of self) = 1 \<and> verse (row_of self) = 1
          then (Inr None, VerseText (row_of self) (attr_next_verse self) (Some None))
          else
            (case objects_get (\<lambda>r. pk r = pk (row_of self) - 1) table of
               Inr v \<Rightarrow> (Inr (Some v), VerseText (row_of self) (attr_next_verse self) (Some (Some v)))
             | Inl e \<Rightarrow> (Inl e, self)))"

text \<open>
  The cached attributes of an instance are only ever written by the two properties. An
  instance is coherent with a table when its record is stored and each cached attribute
  holds what the property stored there: a cached next verse has the following ordinal, a
  cached \<open>None\<close> for the next verse means that no record has the following ordinal, a
  cached previous verse has the preceding ordinal, a cached \<open>None\<close> for the previous
  verse means book 1, chapter 1, verse 1; and the cached instances are coherent in turn.
  An instance as the ORM loads it has no cached attribute and is coherent.
\<close>

fun cache_coherent :: "verse_row list \<Rightarrow> VerseText \<Rightarrow> bool" where
  "cache_coherent table (VerseText r cached_next cached_prev) =
     (r \<in> set table
      \<and> (case cached_next of
            None \<Rightarrow> True
          | Some None \<Rightarrow> (\<forall>x \<in> set table. pk x \<noteq> pk r + 1)
          | Some (Some n) \<Rightarrow> pk (row_of n) = pk r + 1 \<and> cache_coherent table n)
      \<and> (case cached_prev of
            None \<Rightarrow> True
          | Some None \<Rightarrow> book_id r = 1 \<and> chapter_no r = 1 \<and> verse r = 1
          | Some (Some p) \<Rightarrow> pk (row_of p) = pk r - 1 \<and> cache_coherent table p))"

section \<open>A complete verse set\<close>

text \<open>
  The ordering invariant that the specification states for a translation with a complete
  verse set: the ordinals are \<open>1..N\<close> without gaps or duplicates, they follow the
  canonical traversal (book, then chapter, then verse, each ascending), and ordinal 1 is
  book 1, chapter 1, verse 1. The strict traversal order also gives the uniqueness of
  \<open>(book, chapter, verse)\<close> that the model class declares with \<open>unique_together\<close>.
\<close>

definition ordinals_contiguous :: "verse_row list \<Rightarrow> bool" where
  "ordinals_contiguous table = (map pk (sort_key pk table) = [1..int (length table)])"

definition precedes :: "verse_row \<Rightarrow> verse_row \<Rightarrow> bool" where
  "precedes a b =
     (book_id a < book_id b
      \<or> (book_id a = book_id b
          \<and> (chapter_no a < chapter_no b
               \<or> (chapter_no a = chapter_no b \<and> verse a < verse b))))"

definition canonical_order :: "verse_row list \<Rightarrow> bool" where
  "canonical_order table = sorted_wrt precedes (sort_key pk table)"

definition fully_populated :: "verse_row list \<Rightarrow> bool" where
  "fully_populated table =
     (ordinals_contiguous table \<and> canonical_order table
      \<and> (\<forall>r \<in> set table. pk r = 1 \<longrightarrow> book_id r = 1 \<and> chapter_no r = 1 \<and> verse r = 1))"

section \<open>Sample data for concrete evaluation\<close>

text \<open>
  A small instance of the parser's interface: it knows the first four verses of Genesis in
  the KJV, a passage object is the pair of its end points, and the length of a passage
  inside one chapter is the difference of the verse numbers plus one.
\<close>

definition sample_Verse :: "string \<Rightarrow> (int \<times> int \<times> int) option" where
  "sample_Verse reference =
     (if reference = ''Genesis 1:1 KJV'' then Some (1, 1, 1)
      else if reference = ''Genesis 1:2 KJV'' then Some (1, 1, 2)
      else if reference = ''Genesis 1:3 KJV'' then Some (1, 1, 3)
      else if reference = ''Genesis 1:4 KJV'' then Some (1, 1, 4)
      else None)"

definition sample_Passage ::
  "string \<Rightarrow> string \<Rightarrow> ((int \<times> int \<times> int) \<times> (int \<times> int \<times> int)) option" where
  "sample_Passage start_reference end_reference =
     (case sample_Verse start_reference of
        None \<Rightarrow> None
      | Some a \<Rightarrow>
          (case sample_Verse end_reference of
             None \<Rightarrow> None
           | Some b \<Rightarrow> Some (a, b)))"

definition sample_len :: "(int \<times> int \<times> int) \<times> (int \<times> int \<times> int) \<Rightarrow> int option" where
  "sample_len p = (case p of ((b1, c1, v1), (b2, c2, v2)) \<Rightarrow> Some (v2 - v1 + 1))"

definition sample_bible :: "((int \<times> int \<times> int) \<times> (int \<times> int \<times> int)) bible" where
  "sample_bible = \<lparr>Verse = sample_Verse, Passage = sample_Passage, Passage_len = sample_len\<rparr>"

text \<open>A table holding the first three verses of Genesis, stored in no particular order.\<close>

definition genesis_1_1 :: verse_row where
  "genesis_1_1 = \<lparr>pk = 1, book_id = 1, chapter_no = 1, verse = 1, verse_text = ''In the beginning''\<rparr>"

definition genesis_1_2 :: verse_row where
  "genesis_1_2 = \<lparr>pk = 2, book_id = 1, chapter_no = 1, verse = 2, verse_text = ''And the earth''\<rparr>"

definition genesis_1_3 :: verse_row where
  "genesis_1_3 = \<lparr>pk = 3, book_id = 1, chapter_no = 1, verse = 3, verse_text = ''And God said''\<rparr>"

definition sample_table :: "verse_row list" where
  "sample_table = [genesis_1_2, genesis_1_1, genesis_1_3]"

text \<open>A table that holds a New Testament only: its first record is Matthew 1:1.\<close>

definition matthew_1_1 :: verse_row where
  "matthew_1_1 = \<lparr>pk = 1, book_id = 40, chapter_no = 1, verse = 1, verse_text = ''The book''\<rparr>"

definition matthew_1_2 :: verse_row where
  "matthew_1_2 = \<lparr>pk = 2, book_id = 40, chapter_no = 1, verse = 2, verse_text = ''Abraham begat''\<rparr>"

definition new_testament_table :: "verse_row list" where
  "new_testament_table = [matthew_1_1, matthew_1_2]"

text \<open>Model classes are named by strings here; the content type keys are arbitrary.\<close>

definition sample_content_type_pk :: "string \<Rightarrow> int" where
  "sample_content_type_pk model = (if model = ''KJV'' then 11 else 12)"

section \<open>Auxiliary facts\<close>

lemma sample_table_fully_populated: "fully_populated sample_table"
  by code_simp

subsection \<open>Interval lists\<close>

lemma filter_ge_upto: "filter (\<lambda>k. s \<le> k) [i..j] = [max i s..j]"
proof (induction i j rule: upto.induct)
  case (1 i j)
  show ?case
  proof (cases "i \<le> j")
    case True
    with 1 show ?thesis
      by (cases "s \<le> i") (simp_all add: upto_rec1 [of i j] max_def)
  next
    case False
    then show ?thesis by simp
  qed
qed

lemma take_upto: "take n [i..j] = [i..min j (i + int n - 1)]"
proof (induction n arbitrary: i)
  case 0
  then show ?case by simp
next
  case (Suc n)
  show ?case
  proof (cases "i \<le> j")
    case True
    have "take (Suc n) [i..j] = i # take n [i + 1..j]"
      using True by (simp add: upto_rec1 [of i j])
    also have "\<dots> = i # [i + 1..min j (i + 1 + int n - 1)]"
      by (simp only: Suc.IH)
    also have "\<dots> = [i..min j (i + int (Suc n) - 1)]"
      using True by (simp add: upto_rec1 [of i "min j (i + int n)"] add.commute)
    finally show ?thesis .
  next
    case False
    then show ?thesis by simp
  qed
qed

subsection \<open>Keys of a table\<close>

lemma filter_key_eq:
  "distinct (map f xs) \<Longrightarrow> x \<in> set xs \<Longrightarrow> filter (\<lambda>y. f y = f x) xs = [x]"
proof (induction xs)
  case Nil
  then show ?case by simp
next
  case (Cons a xs)
  show ?case
  proof (cases "a = x")
    case True
    from Cons.prems(1) True have "f x \<notin> f ` set xs" by simp
    then have "\<forall>y \<in> set xs. f y \<noteq> f x" by (metis imageI)
    then have "filter (\<lambda>y. f y = f x) xs = []"
      by (simp add: filter_empty_conv)
    with True show ?thesis by simp
  next
    case False
    with Cons.prems have "x \<in> set xs" and "f a \<noteq> f x" by auto
    with Cons show ?thesis by simp
  qed
qed

lemma distinct_map_sort_key: "distinct (map f (sort_key k xs)) = distinct (map f xs)"
  by (simp add: distinct_map)

lemma contiguous_distinct_pk: "ordinals_contiguous table \<Longrightarrow> distinct (map pk table)"
proof -
  assume "ordinals_contiguous table"
  then have "distinct (map pk (sort_key pk table))"
    by (simp add: ordinals_contiguous_def)
  then show ?thesis by (simp only: distinct_map_sort_key)
qed

lemma contiguous_pk_range:
  assumes "ordinals_contiguous table"
  shows "pk ` set table = {1..int (length table)}"
proof -
  have "pk ` set table = set (map pk (sort_key pk table))" by simp
  also have "\<dots> = {1..int (length table)}"
    using assms by (simp only: ordinals_contiguous_def set_upto)
  finally show ?thesis .
qed

lemma sorted_wrt_distinct_map:
  "sorted_wrt R xs \<Longrightarrow> (\<And>x y. R x y \<Longrightarrow> f x \<noteq> f y) \<Longrightarrow> distinct (map f xs)"
  by (induction xs) auto

lemma canonical_distinct_bcv:
  assumes "canonical_order table"
  shows "distinct (map (\<lambda>r. (book_id r, chapter_no r, verse r)) table)"
proof -
  have "distinct (map (\<lambda>r. (book_id r, chapter_no r, verse r)) (sort_key pk table))"
    using assms unfolding canonical_order_def
    by (rule sorted_wrt_distinct_map) (auto simp: precedes_def)
  then show ?thesis by (simp only: distinct_map_sort_key)
qed

lemma objects_get_pk:
  assumes "ordinals_contiguous table" and "r \<in> set table"
  shows "objects_get (\<lambda>x. pk x = pk r) table = Inr (VerseText r None None)"
  using filter_key_eq [OF contiguous_distinct_pk [OF assms(1)] assms(2)]
  by (simp add: objects_get_def)

lemma objects_get_bcv:
  assumes "canonical_order table" and "r \<in> set table"
  shows "objects_get (\<lambda>x. book_id x = book_id r \<and> chapter_no x = chapter_no r \<and> verse x = verse r) table
         = Inr (VerseText r None None)"
  using filter_key_eq [OF canonical_distinct_bcv [OF assms(1)] assms(2)]
  by (simp add: objects_get_def)

lemma objects_get_none:
  "\<forall>r \<in> set table. \<not> cond r \<Longrightarrow> objects_get cond table = Inl DoesNotExist"
proof -
  assume "\<forall>r \<in> set table. \<not> cond r"
  then have "filter cond table = []" by (simp add: filter_empty_conv)
  then show ?thesis by (simp add: objects_get_def)
qed

subsection \<open>The passage query\<close>

lemma passage_query_pks:
  assumes "ordinals_contiguous table" and "1 \<le> start_pk"
  shows "map pk (passage_query table start_pk n) =
         [int start_pk..min (int (length table)) (int start_pk + int n - 1)]"
proof -
  have "map pk (passage_query table start_pk n) =
        take n (filter (\<lambda>k. int start_pk \<le> k) (map pk (sort_key pk table)))"
    by (simp add: passage_query_def take_map filter_map comp_def)
  also have "\<dots> = take n (filter (\<lambda>k. int start_pk \<le> k) [1..int (length table)])"
    using assms(1) by (simp add: ordinals_contiguous_def)
  also have "\<dots> = take n [int start_pk..int (length table)]"
    using assms(2) by (simp add: filter_ge_upto max_def)
  finally show ?thesis by (simp add: take_upto)
qed

lemma passage_query_subset: "set (passage_query table start_pk n) \<subseteq> set table"
  by (auto simp: passage_query_def dest: in_set_takeD)

lemma passage_unfold:
  assumes "with_translation translation start_reference = Inr start'"
    and "with_translation translation (end_or_start start_reference end_reference) = Inr end'"
    and "Passage lib start' end' = Some passage"
    and "Passage lib (in_the_beginning translation) start' = Some anchor"
    and "Passage_len lib anchor = Some s" and "0 \<le> s"
    and "Passage_len lib passage = Some n" and "0 \<le> n"
  shows "BiblePassageManager_passage lib translation table start_reference end_reference =
         Inr (map (\<lambda>r. VerseText r None None) (passage_query table (nat s) (nat n)))"
  using assms by (simp add: BiblePassageManager_passage_def len_def)

section \<open>Passages\<close>

text \<open>
  Claim C1. On a table with a complete verse set, when both references pass the
  qualification step and the parser accepts the passage and the anchor passage, with the
  anchor count \<open>s\<close> (the number of verses from Genesis 1:1 to the start reference,
  inclusive) and the span count \<open>n\<close>, and the ordinals \<open>s .. s + n - 1\<close> lie
  inside the stored range \<open>1 .. N\<close>, then \<open>passage\<close> returns stored verses whose
  ordinals are exactly \<open>s, s + 1, .., s + n - 1\<close> in ascending order, \<open>n\<close> of them.
\<close>

theorem passage_contiguous_range:
  assumes "fully_populated table"
    and "with_translation translation start_reference = Inr start'"
    and "with_translation translation (end_or_start start_reference end_reference) = Inr end'"
    and "Passage lib start' end' = Some passage"
    and "Passage lib (in_the_beginning translation) start' = Some anchor"
    and "Passage_len lib anchor = Some s"
    and "Passage_len lib passage = Some n"
    and "1 \<le> s" and "0 \<le> n" and "s + n - 1 \<le> int (length table)"
  shows "\<exists>vs. BiblePassageManager_passage lib translation table start_reference end_reference = Inr vs
              \<and> map (\<lambda>v. pk (row_of v)) vs = [s..s + n - 1]
              \<and> sorted (map (\<lambda>v. pk (row_of v)) vs)
              \<and> int (length vs) = n
              \<and> row_of ` set vs \<subseteq> set table"
proof -
  let ?q = "passage_query table (nat s) (nat n)"
  let ?vs = "map (\<lambda>r. VerseText r None None) ?q"
  have contiguous: "ordinals_contiguous table"
    using assms(1) by (simp add: fully_populated_def)
  have run: "BiblePassageManager_passage lib translation table start_reference end_reference = Inr ?vs"
    using assms(2-7) \<open>1 \<le> s\<close> \<open>0 \<le> n\<close> by (intro passage_unfold) simp_all
  have "map pk ?q = [int (nat s)..min (int (length table)) (int (nat s) + int (nat n) - 1)]"
    using contiguous \<open>1 \<le> s\<close> by (intro passage_query_pks) simp_all
  moreover have "min (int (length table)) (s + n - 1) = s + n - 1"
    using \<open>s + n - 1 \<le> int (length table)\<close> by simp
  ultimately have pks: "map pk ?q = [s..s + n - 1]"
    using \<open>1 \<le> s\<close> \<open>0 \<le> n\<close> by simp
  have keys: "map (\<lambda>v. pk (row_of v)) ?vs = [s..s + n - 1]"
    using pks by (simp add: comp_def)
  have "length ?vs = length (map pk ?q)" by simp
  also have "\<dots> = nat n" by (simp only: pks length_upto)
  finally have size: "int (length ?vs) = n" using \<open>0 \<le> n\<close> by simp
  have stored: "row_of ` set ?vs \<subseteq> set table"
    using passage_query_subset [of table "nat s" "nat n"] by auto
  have "sorted (map (\<lambda>v. pk (row_of v)) ?vs)"
    by (simp only: keys sorted_upto)
  with run keys size stored show ?thesis by blast
qed

theorem passage_contiguous_range_witness:
  "\<exists>vs. BiblePassageManager_passage sample_bible (Some ''KJV'') sample_table
          ''Genesis 1:2'' (Some ''Genesis 1:3'') = Inr vs
        \<and> map (\<lambda>v. pk (row_of v)) vs = [2..2 + 2 - 1]
        \<and> sorted (map (\<lambda>v. pk (row_of v)) vs)
        \<and> int (length vs) = 2
        \<and> row_of ` set vs \<subseteq> set sample_table"
proof -
  have populated: "fully_populated sample_table" by code_simp
  show ?thesis
  proof (rule passage_contiguous_range [OF populated,
          where start' = "''Genesis 1:2 KJV''" and end' = "''Genesis 1:3 KJV''"
            and passage = "((1, 1, 2), (1, 1, 3))" and anchor = "((1, 1, 1), (1, 1, 2))"
            and s = 2 and n = 2])
    show "with_translation (Some ''KJV'') ''Genesis 1:2'' = Inr ''Genesis 1:2 KJV''"
      by (simp add: with_translation_def)
    show "with_translation (Some ''KJV'') (end_or_start ''Genesis 1:2'' (Some ''Genesis 1:3''))
          = Inr ''Genesis 1:3 KJV''"
      by (simp add: with_translation_def end_or_start_def)
    show "Passage sample_bible ''Genesis 1:2 KJV'' ''Genesis 1:3 KJV'' = Some ((1, 1, 2), (1, 1, 3))"
      by (simp add: sample_bible_def sample_Passage_def sample_Verse_def)
    show "Passage sample_bible (in_the_beginning (Some ''KJV'')) ''Genesis 1:2 KJV''
          = Some ((1, 1, 1), (1, 1, 2))"
      by (simp add: sample_bible_def sample_Passage_def sample_Verse_def in_the_beginning_def)
    show "Passage_len sample_bible ((1, 1, 1), (1, 1, 2)) = Some 2"
      by (simp add: sample_bible_def sample_len_def)
    show "Passage_len sample_bible ((1, 1, 2), (1, 1, 3)) = Some 2"
      by (simp add: sample_bible_def sample_len_def)
    show "2 + 2 - 1 \<le> int (length sample_table)"
      by (simp add: sample_table_def)
  qed simp_all
qed

text \<open>
  Claim C3 says that a passage whose ordinal range runs past the stored verses fails with
  NotFound. The code has no such check: the slice of line 66 silently stops at the end of
  the table. On the sample table of three verses, the passage from Genesis 1:2 to
  Genesis 1:4 (anchor count 2, span count 3) returns the two stored verses 2 and 3.
\<close>

theorem passage_beyond_store_counterexample:
  "BiblePassageManager_passage sample_bible (Some ''KJV'') sample_table
     ''Genesis 1:2'' (Some ''Genesis 1:4'')
   = Inr [VerseText genesis_1_2 None None, VerseText genesis_1_3 None None]"
  by (simp add: BiblePassageManager_passage_def with_translation_def end_or_start_def
        in_the_beginning_def sample_bible_def sample_Passage_def sample_Verse_def
        sample_len_def len_def passage_query_def sample_table_def
        genesis_1_1_def genesis_1_2_def genesis_1_3_def)

text \<open>
  Claim C3, as the code behaves. On a table with a complete verse set of \<open>N\<close> verses,
  when the parser accepts the references with anchor count \<open>s \<ge> 1\<close> and span count
  \<open>n \<ge> 1\<close> and the range \<open>s .. s + n - 1\<close> runs past \<open>N\<close>, \<open>passage\<close> does not
  fail: it returns the stored verses with the ordinals \<open>s .. N\<close> (none when \<open>s > N\<close>),
  fewer than \<open>n\<close> of them.
\<close>

theorem passage_truncates:
  assumes "fully_populated table"
    and "with_translation translation start_reference = Inr start'"
    and "with_translation translation (end_or_start start_reference end_reference) = Inr end'"
    and "Passage lib start' end' = Some passage"
    and "Passage lib (in_the_beginning translation) start' = Some anchor"
    and "Passage_len lib anchor = Some s"
    and "Passage_len lib passage = Some n"
    and "1 \<le> s" and "1 \<le> n" and "int (length table) < s + n - 1"
  shows "\<exists>vs. BiblePassageManager_passage lib translation table start_reference end_reference = Inr vs
              \<and> map (\<lambda>v. pk (row_of v)) vs = [s..int (length table)]
              \<and> int (length vs) < n
              \<and> row_of ` set vs \<subseteq> set table"
proof -
  let ?q = "passage_query table (nat s) (nat n)"
  let ?vs = "map (\<lambda>r. VerseText r None None) ?q"
  have contiguous: "ordinals_contiguous table"
    using assms(1) by (simp add: fully_populated_def)
  have run: "BiblePassageManager_passage lib translation table start_reference end_reference = Inr ?vs"
    using assms(2-7) \<open>1 \<le> s\<close> \<open>1 \<le> n\<close> by (intro passage_unfold) simp_all
  have "map pk ?q = [int (nat s)..min (int (length table)) (int (nat s) + int (nat n) - 1)]"
    using contiguous \<open>1 \<le> s\<close> by (intro passage_query_pks) simp_all
  moreover have "min (int (length table)) (s + n - 1) = int (length table)"
    using \<open>int (length table) < s + n - 1\<close> by simp
  ultimately have pks: "map pk ?q = [s..int (length table)]"
    using \<open>1 \<le> s\<close> \<open>1 \<le> n\<close> by simp
  have keys: "map (\<lambda>v. pk (row_of v)) ?vs = [s..int (length table)]"
    using pks by (simp add: comp_def)
  have "length ?vs = length (map pk ?q)" by simp
  also have "\<dots> = nat (int (length table) - s + 1)" by (simp only: pks length_upto)
  finally have size: "int (length ?vs) < n"
    using \<open>int (length table) < s + n - 1\<close> \<open>1 \<le> n\<close> by simp
  have stored: "row_of ` set ?vs \<subseteq> set table"
    using passage_query_subset [of table "nat s" "nat n"] by auto
  from run keys size stored show ?thesis by blast
qed

theorem passage_truncates_witness:
  "\<exists>vs. BiblePassageManager_passage sample_bible (Some ''KJV'') sample_table
          ''Genesis 1:2'' (Some ''Genesis 1:4'') = Inr vs
        \<and> map (\<lambda>v. pk (row_of v)) vs = [2..int (length sample_table)]
        \<and> int (length vs) < 3
        \<and> row_of ` set vs \<subseteq> set sample_table"
proof (rule passage_truncates [OF sample_table_fully_populated,
          where start' = "''Genesis 1:2 KJV''" and end' = "''Genesis 1:4 KJV''"
            and passage = "((1, 1, 2), (1, 1, 4))" and anchor = "((1, 1, 1), (1, 1, 2))"
            and s = 2 and n = 3])
  show "with_translation (Some ''KJV'') ''Genesis 1:2'' = Inr ''Genesis 1:2 KJV''"
    by (simp add: with_translation_def)
  show "with_translation (Some ''KJV'') (end_or_start ''Genesis 1:2'' (Some ''Genesis 1:4''))
        = Inr ''Genesis 1:4 KJV''"
    by (simp add: with_translation_def end_or_start_def)
  show "Passage sample_bible ''Genesis 1:2 KJV'' ''Genesis 1:4 KJV'' = Some ((1, 1, 2), (1, 1, 4))"
    by (simp add: sample_bible_def sample_Passage_def sample_Verse_def)
  show "Passage sample_bible (in_the_beginning (Some ''KJV'')) ''Genesis 1:2 KJV''
        = Some ((1, 1, 1), (1, 1, 2))"
    by (simp add: sample_bible_def sample_Passage_def sample_Verse_def in_the_beginning_def)
  show "Passage_len sample_bible ((1, 1, 1), (1, 1, 2)) = Some 2"
    by (simp add: sample_bible_def sample_len_def)
  show "Passage_len sample_bible ((1, 1, 2), (1, 1, 4)) = Some 3"
    by (simp add: sample_bible_def sample_len_def)
  show "int (length sample_table) < 2 + 3 - 1"
    by (simp add: sample_table_def)
qed simp_all

text \<open>
  Claim C5 says that a passage of non-positive length fails with InvalidReference. The
  code does not look at the length before slicing: with the sample parser the passage from
  Genesis 1:2 to Genesis 1:1 has span count 0, and \<open>passage\<close> returns the empty
  sequence.
\<close>

theorem passage_empty_span_counterexample:
  "BiblePassageManager_passage sample_bible (Some ''KJV'') sample_table
     ''Genesis 1:2'' (Some ''Genesis 1:1'') = Inr []"
  by (simp add: BiblePassageManager_passage_def with_translation_def end_or_start_def
        in_the_beginning_def sample_bible_def sample_Passage_def sample_Verse_def
        sample_len_def len_def passage_query_def)

text \<open>
  Claim C5, as the code behaves. When the parser accepts both references and the anchor
  passage, and reports a span count \<open>n \<le> 0\<close>, then \<open>passage\<close> returns the empty
  sequence for \<open>n = 0\<close>, and for \<open>n < 0\<close> Python's \<open>len\<close> raises ValueError; the
  parser's own failure (InvalidReference) is not what the caller sees in either case.
\<close>

theorem passage_nonpositive_span:
  assumes "with_translation translation start_reference = Inr start'"
    and "with_translation translation (end_or_start start_reference end_reference) = Inr end'"
    and "Passage lib start' end' = Some passage"
    and "Passage lib (in_the_beginning translation) start' = Some anchor"
    and "Passage_len lib anchor = Some s" and "0 \<le> s"
    and "Passage_len lib passage = Some n" and "n \<le> 0"
  shows "BiblePassageManager_passage lib translation table start_reference end_reference =
         (if n = 0 then Inr [] else Inl ValueError)"
  using assms by (simp add: BiblePassageManager_passage_def len_def passage_query_def)

theorem passage_nonpositive_span_witness:
  "BiblePassageManager_passage sample_bible (Some ''KJV'') sample_table
     ''Genesis 1:3'' (Some ''Genesis 1:1'') = Inl ValueError"
proof -
  have "BiblePassageManager_passage sample_bible (Some ''KJV'') sample_table
          ''Genesis 1:3'' (Some ''Genesis 1:1'') =
        (if (- 1 :: int) = 0 then Inr [] else Inl ValueError)"
  proof (rule passage_nonpositive_span [
          where start' = "''Genesis 1:3 KJV''" and end' = "''Genesis 1:1 KJV''"
            and passage = "((1, 1, 3), (1, 1, 1))" and anchor = "((1, 1, 1), (1, 1, 3))"
            and s = 3])
    show "with_translation (Some ''KJV'') ''Genesis 1:3'' = Inr ''Genesis 1:3 KJV''"
      by (simp add: with_translation_def)
    show "with_translation (Some ''KJV'') (end_or_start ''Genesis 1:3'' (Some ''Genesis 1:1''))
          = Inr ''Genesis 1:1 KJV''"
      by (simp add: with_translation_def end_or_start_def)
    show "Passage sample_bible ''Genesis 1:3 KJV'' ''Genesis 1:1 KJV'' = Some ((1, 1, 3), (1, 1, 1))"
      by (simp add: sample_bible_def sample_Passage_def sample_Verse_def)
    show "Passage sample_bible (in_the_beginning (Some ''KJV'')) ''Genesis 1:3 KJV''
          = Some ((1, 1, 1), (1, 1, 3))"
      by (simp add: sample_bible_def sample_Passage_def sample_Verse_def in_the_beginning_def)
    show "Passage_len sample_bible ((1, 1, 1), (1, 1, 3)) = Some 3"
      by (simp add: sample_bible_def sample_len_def)
    show "Passage_len sample_bible ((1, 1, 3), (1, 1, 1)) = Some (- 1)"
      by (simp add: sample_bible_def sample_len_def)
  qed simp_all
  then show ?thesis by simp
qed

subsection \<open>A passage of one verse\<close>

lemma passage_query_single:
  assumes "ordinals_contiguous table" and "r \<in> set table" and "pk r = int s"
  shows "passage_query table s 1 = [r]"
proof -
  have "pk r \<in> {1..int (length table)}"
    using contiguous_pk_range [OF assms(1)] assms(2) by blast
  with assms(3) have bounds: "1 \<le> s" "int s \<le> int (length table)" by simp_all
  have "map pk (passage_query table s 1) = [int s..min (int (length table)) (int s + int 1 - 1)]"
    using assms(1) bounds(1) by (rule passage_query_pks)
  also have "\<dots> = [int s]" using bounds(2) by simp
  finally obtain x where x: "passage_query table s 1 = [x]" and "pk x = int s"
    by (auto simp: map_eq_Cons_conv)
  have "x \<in> set table"
    using passage_query_subset [of table s 1] x by auto
  have "inj_on pk (set table)"
    using contiguous_distinct_pk [OF assms(1)] by (simp add: distinct_map)
  then have "x = r"
    using \<open>x \<in> set table\<close> assms(2) \<open>pk x = int s\<close> assms(3) by (metis inj_onD)
  with x show ?thesis by simp
qed

lemma passage_end_omitted:
  "BiblePassageManager_passage lib translation table reference (Some reference) =
   BiblePassageManager_passage lib translation table reference None"
proof -
  have same: "end_or_start reference (Some reference) = end_or_start reference None"
    by (simp add: end_or_start_def)
  show ?thesis
    unfolding BiblePassageManager_passage_def same by (rule refl)
qed

text \<open>
  Claim C6. On a table with a complete verse set, let the parser read the qualified
  reference as the verse \<open>(b, c, v)\<close>, count one verse from the reference to itself, and
  count \<open>s\<close> verses from Genesis 1:1 to the reference; let the stored verse with ordinal
  \<open>s\<close> be the verse \<open>(b, c, v)\<close>, that is, the parser and the table agree on the
  position of the verse. Then \<open>verse\<close> returns that stored verse, and \<open>passage\<close>,
  called with the reference as both ends or with the end omitted, returns the one-element
  sequence holding the same verse.
\<close>

theorem single_verse_passage:
  assumes "fully_populated table"
    and "with_translation translation reference = Inr reference'"
    and "Verse lib reference' = Some (b, c, v)"
    and "Passage lib reference' reference' = Some passage"
    and "Passage_len lib passage = Some 1"
    and "Passage lib (in_the_beginning translation) reference' = Some anchor"
    and "Passage_len lib anchor = Some s"
    and "r \<in> set table" and "pk r = s"
    and "book_id r = b" and "chapter_no r = c" and "verse r = v"
  shows "BiblePassageManager_verse lib translation table reference = Inr (VerseText r None None)
       \<and> BiblePassageManager_passage lib translation table reference (Some reference)
           = Inr [VerseText r None None]
       \<and> BiblePassageManager_passage lib translation table reference None
           = Inr [VerseText r None None]"
proof -
  have contiguous: "ordinals_contiguous table" and canonical: "canonical_order table"
    using assms(1) by (simp_all add: fully_populated_def)
  have "pk r \<in> {1..int (length table)}"
    using contiguous_pk_range [OF contiguous] \<open>r \<in> set table\<close> by blast
  with \<open>pk r = s\<close> have "0 \<le> s" by simp
  have start: "pk r = int (nat s)" using \<open>pk r = s\<close> \<open>0 \<le> s\<close> by simp
  have "objects_get (\<lambda>x. book_id x = b \<and> chapter_no x = c \<and> verse x = v) table
        = Inr (VerseText r None None)"
    using objects_get_bcv [OF canonical \<open>r \<in> set table\<close>] assms(10-12) by simp
  then have one: "BiblePassageManager_verse lib translation table reference = Inr (VerseText r None None)"
    using assms(2,3) by (simp add: BiblePassageManager_verse_def)
  have "end_or_start reference None = reference"
    by (simp add: end_or_start_def)
  then have "BiblePassageManager_passage lib translation table reference None =
        Inr (map (\<lambda>r. VerseText r None None) (passage_query table (nat s) (nat 1)))"
    using assms(2,4-7) \<open>0 \<le> s\<close> by (intro passage_unfold) simp_all
  then have many: "BiblePassageManager_passage lib translation table reference None
        = Inr [VerseText r None None]"
    using passage_query_single [OF contiguous \<open>r \<in> set table\<close> start] by simp
  from one many show ?thesis by (simp only: passage_end_omitted simp_thms)
qed

theorem single_verse_passage_witness:
  "BiblePassageManager_verse sample_bible (Some ''KJV'') sample_table ''Genesis 1:2''
     = Inr (VerseText genesis_1_2 None None)
   \<and> BiblePassageManager_passage sample_bible (Some ''KJV'') sample_table
       ''Genesis 1:2'' (Some ''Genesis 1:2'') = Inr [VerseText genesis_1_2 None None]
   \<and> BiblePassageManager_passage sample_bible (Some ''KJV'') sample_table
       ''Genesis 1:2'' None = Inr [VerseText genesis_1_2 None None]"
proof (rule single_verse_passage [OF sample_table_fully_populated,
         where reference' = "''Genesis 1:2 KJV''" and b = 1 and c = 1 and v = 2
           and passage = "((1, 1, 2), (1, 1, 2))" and anchor = "((1, 1, 1), (1, 1, 2))"
           and s = 2])
  show "with_translation (Some ''KJV'') ''Genesis 1:2'' = Inr ''Genesis 1:2 KJV''"
    by (simp add: with_translation_def)
  show "Verse sample_bible ''Genesis 1:2 KJV'' = Some (1, 1, 2)"
    by (simp add: sample_bible_def sample_Verse_def)
  show "Passage sample_bible ''Genesis 1:2 KJV'' ''Genesis 1:2 KJV'' = Some ((1, 1, 2), (1, 1, 2))"
    by (simp add: sample_bible_def sample_Passage_def sample_Verse_def)
  show "Passage_len sample_bible ((1, 1, 2), (1, 1, 2)) = Some 1"
    by (simp add: sample_bible_def sample_len_def)
  show "Passage sample_bible (in_the_beginning (Some ''KJV'')) ''Genesis 1:2 KJV''
        = Some ((1, 1, 1), (1, 1, 2))"
    by (simp add: sample_bible_def sample_Passage_def sample_Verse_def in_the_beginning_def)
  show "Passage_len sample_bible ((1, 1, 1), (1, 1, 2)) = Some 2"
    by (simp add: sample_bible_def sample_len_def)
  show "genesis_1_2 \<in> set sample_table"
    by (simp add: sample_table_def)
qed (simp_all add: genesis_1_2_def)

section \<open>Single verses\<close>

text \<open>
  Claim C9. When the qualified reference is accepted by the parser as the verse
  \<open>(b, c, v)\<close> and the table holds no record with that book, chapter and verse, then
  \<open>verse\<close> fails with the ORM's \<open>DoesNotExist\<close> (the specification's NotFound): it
  neither returns a verse nor fails in another way.
\<close>

theorem verse_not_stored:
  assumes "with_translation translation reference = Inr reference'"
    and "Verse lib reference' = Some (b, c, v)"
    and "\<forall>r \<in> set table. \<not> (book_id r = b \<and> chapter_no r = c \<and> verse r = v)"
  shows "BiblePassageManager_verse lib translation table reference = Inl DoesNotExist"
  using assms(1,2) objects_get_none [OF assms(3)]
  by (simp add: BiblePassageManager_verse_def)

theorem verse_not_stored_witness:
  "BiblePassageManager_verse sample_bible (Some ''KJV'') sample_table ''Genesis 1:4''
   = Inl DoesNotExist"
proof (rule verse_not_stored [where reference' = "''Genesis 1:4 KJV''"
         and b = 1 and c = 1 and v = 4])
  show "with_translation (Some ''KJV'') ''Genesis 1:4'' = Inr ''Genesis 1:4 KJV''"
    by (simp add: with_translation_def)
  show "Verse sample_bible ''Genesis 1:4 KJV'' = Some (1, 1, 4)"
    by (simp add: sample_bible_def sample_Verse_def)
  show "\<forall>r \<in> set sample_table. \<not> (book_id r = 1 \<and> chapter_no r = 1 \<and> verse r = 4)"
    by (simp add: sample_table_def genesis_1_1_def genesis_1_2_def genesis_1_3_def)
qed

section \<open>Qualifying a reference with the translation code\<close>

lemma with_translation_always_appends:
  assumes "t \<noteq> []" and "length t \<noteq> 1" and "3 \<le> length reference"
  shows "with_translation (Some t) reference = Inr (reference @ '' '' @ t)"
proof -
  have "[reference ! (length reference - 3)] \<noteq> t"
    using assms(2) by (cases t) auto
  with assms(1,3) show ?thesis by (simp add: with_translation_def)
qed

text \<open>
  Claim C2 says that the translation code is appended exactly when the last word of the
  reference is not the translation code. The code compares the single character
  \<open>reference[-3]\<close> with the whole code, so for the three-letter code \<open>KJV\<close> the test
  always succeeds: the reference \<open>John 3:16 KJV\<close>, which already carries the
  qualifier, gets it a second time.
\<close>

theorem qualifier_appended_twice:
  "with_translation (Some ''KJV'') ''John 3:16 KJV'' = Inr ''John 3:16 KJV KJV''"
  by (simp add: with_translation_def)

lemma with_translation_error:
  "with_translation translation reference = Inl e \<Longrightarrow> e = IndexError"
  by (auto simp: with_translation_def split: option.splits if_splits)

text \<open>
  Claim C10 says that every reference shorter than three characters, at either end of a
  passage, raises IndexError. The empty string as end reference does not: line 51 takes it
  for an omitted end and replaces it by the start reference before it is indexed.
\<close>

theorem short_end_reference_counterexample:
  "BiblePassageManager_passage sample_bible (Some ''KJV'') sample_table ''Genesis 1:1'' (Some '''')
   = Inr [VerseText genesis_1_1 None None]"
  by (simp add: BiblePassageManager_passage_def with_translation_def end_or_start_def
        in_the_beginning_def sample_bible_def sample_Passage_def sample_Verse_def
        sample_len_def len_def passage_query_def sample_table_def
        genesis_1_1_def genesis_1_2_def genesis_1_3_def)

text \<open>
  Claim C10, as the code behaves. With a translation code set (a non-empty string), a
  reference of fewer than three characters raises IndexError, whatever the parser and the
  table are, in \<open>verse\<close>, in \<open>passage\<close> as the start reference (with any end), and in
  \<open>passage\<close> as the end reference (with any start) when it is not the empty string.
\<close>

theorem short_reference_index_error:
  assumes "translation = Some t" and "t \<noteq> []" and "length short < 3"
  shows "BiblePassageManager_verse lib translation table short = Inl IndexError
       \<and> BiblePassageManager_passage lib translation table short end_reference = Inl IndexError
       \<and> (short \<noteq> [] \<longrightarrow>
            BiblePassageManager_passage lib translation table start_reference (Some short)
              = Inl IndexError)"
proof -
  have short: "with_translation translation short = Inl IndexError"
    using assms by (simp add: with_translation_def)
  have "BiblePassageManager_verse lib translation table short = Inl IndexError"
    by (simp add: BiblePassageManager_verse_def short)
  moreover have "BiblePassageManager_passage lib translation table short end_reference = Inl IndexError"
    by (simp add: BiblePassageManager_passage_def short)
  moreover have "BiblePassageManager_passage lib translation table start_reference (Some short)
                 = Inl IndexError" if "short \<noteq> []"
    using that
    by (auto simp: BiblePassageManager_passage_def end_or_start_def short
          split: sum.split dest: with_translation_error)
  ultimately show ?thesis by simp
qed

theorem short_reference_index_error_witness:
  "BiblePassageManager_verse sample_bible (Some ''KJV'') sample_table ''Ge'' = Inl IndexError
   \<and> BiblePassageManager_passage sample_bible (Some ''KJV'') sample_table ''Ge'' (Some ''Genesis 1:1'')
       = Inl IndexError
   \<and> BiblePassageManager_passage sample_bible (Some ''KJV'') sample_table ''Genesis 1:1'' (Some ''Ge'')
       = Inl IndexError"
  using short_reference_index_error [where translation = "Some ''KJV''" and t = "''KJV''"
      and short = "''Ge''" and lib = sample_bible and table = sample_table
      and end_reference = "Some ''Genesis 1:1''" and start_reference = "''Genesis 1:1''"]
  by simp

section \<open>Next and previous verse\<close>

text \<open>
  Claim C4 says that \<open>prev_verse\<close> answers \<open>None\<close> for book 1, chapter 1, verse 1
  without a lookup, and also whenever the lookup of the preceding ordinal fails. The first
  part holds (first conjunct, on an empty table). The second does not: unlike
  \<open>next_verse\<close>, \<open>prev_verse\<close> has no \<open>try\<close> around its lookup. In a table that
  starts at Matthew 1:1, the previous verse of the first record raises
  \<open>DoesNotExist\<close> (second conjunct), while the next verse of the last record is
  \<open>None\<close> (third conjunct).
\<close>

theorem prev_verse_lookup_failure_escapes:
  "prev_verse [] (VerseText genesis_1_1 None None)
     = (Inr None, VerseText genesis_1_1 None (Some None))
   \<and> prev_verse new_testament_table (VerseText matthew_1_1 None None)
     = (Inl DoesNotExist, VerseText matthew_1_1 None None)
   \<and> next_verse new_testament_table (VerseText matthew_1_2 None None)
     = (Inr None, VerseText matthew_1_2 (Some None) None)"
  by (simp add: prev_verse_def next_verse_def objects_get_def new_testament_table_def
        genesis_1_1_def matthew_1_1_def matthew_1_2_def)

lemma prev_verse_lookup_fails:
  assumes "attr_prev_verse self = None"
    and "\<not> (book_id (row_of self) = 1 \<and> chapter_no (row_of self) = 1 \<and> verse (row_of self) = 1)"
    and "\<forall>r \<in> set table. pk r \<noteq> pk (row_of self) - 1"
  shows "prev_verse table self = (Inl DoesNotExist, self)"
proof -
  have "objects_get (\<lambda>r. pk r = pk (row_of self) - 1) table = Inl DoesNotExist"
    using assms(3) by (intro objects_get_none) simp
  with assms(1,2) show ?thesis by (simp add: prev_verse_def)
qed

subsection \<open>Coherent instances\<close>

lemma cache_coherent_row: "cache_coherent table v \<Longrightarrow> row_of v \<in> set table"
  by (cases v) simp

lemma cache_coherent_loaded: "r \<in> set table \<Longrightarrow> cache_coherent table (VerseText r None None)"
  by simp

lemma objects_get_row:
  "objects_get cond table = Inr v \<Longrightarrow>
   v = VerseText (row_of v) None None \<and> row_of v \<in> set table \<and> cond (row_of v)"
proof -
  assume got: "objects_get cond table = Inr v"
  then obtain r where one: "filter cond table = [r]" and v: "v = VerseText r None None"
    by (auto simp: objects_get_def split: list.splits)
  from one have "r \<in> set (filter cond table)" by simp
  with v show ?thesis by simp
qed

lemma objects_get_missing:
  "objects_get cond table = Inl DoesNotExist \<Longrightarrow> \<forall>x \<in> set table. \<not> cond x"
  by (auto simp: objects_get_def filter_empty_conv split: list.splits)

lemma next_verse_coherent:
  assumes "cache_coherent table self" and "next_verse table self = (result, self')"
  shows "cache_coherent table self' \<and> (\<forall>v. result = Inr (Some v) \<longrightarrow> cache_coherent table v)"
proof (cases self)
  case (VerseText r cached_next cached_prev)
  show ?thesis
  proof (cases cached_next)
    case (Some cached)
    with VerseText assms show ?thesis
      by (auto simp: next_verse_def split: option.splits)
  next
    case None
    show ?thesis
    proof (cases "objects_get (\<lambda>x. pk x = pk r + 1) table")
      case (Inr v)
      from objects_get_row [OF Inr] have "cache_coherent table v" and "pk (row_of v) = pk r + 1"
        by (cases v, simp)+
      with VerseText None Inr assms show ?thesis
        by (auto simp: next_verse_def)
    next
      case (Inl e)
      show ?thesis
      proof (cases "e = DoesNotExist")
        case True
        with Inl objects_get_missing have "\<forall>x \<in> set table. pk x \<noteq> pk r + 1" by blast
        with VerseText None Inl True assms show ?thesis
          by (auto simp: next_verse_def)
      next
        case False
        with VerseText None Inl assms show ?thesis
          by (cases e) (auto simp: next_verse_def)
      qed
    qed
  qed
qed

lemma prev_verse_coherent:
  assumes "cache_coherent table self" and "prev_verse table self = (result, self')"
  shows "cache_coherent table self' \<and> (\<forall>v. result = Inr (Some v) \<longrightarrow> cache_coherent table v)"
proof (cases self)
  case (VerseText r cached_next cached_prev)
  show ?thesis
  proof (cases cached_prev)
    case (Some cached)
    with VerseText assms show ?thesis
      by (auto simp: prev_verse_def split: option.splits)
  next
    case None
    show ?thesis
    proof (cases "book_id r = 1 \<and> chapter_no r = 1 \<and> verse r = 1")
      case True
      with VerseText None assms show ?thesis
        by (auto simp: prev_verse_def)
    next
      case False
      show ?thesis
      proof (cases "objects_get (\<lambda>x. pk x = pk r - 1) table")
        case (Inr v)
        from objects_get_row [OF Inr] have "cache_coherent table v" and "pk (row_of v) = pk r - 1"
          by (cases v, simp)+
        with VerseText None False Inr assms show ?thesis
          by (auto simp: prev_verse_def)
      next
        case (Inl e)
        with VerseText None False assms show ?thesis
          by (auto simp: prev_verse_def)
      qed
    qed
  qed
qed

lemma first_verse_unique:
  assumes "fully_populated table" and "r \<in> set table" and "pk r \<noteq> 1"
  shows "\<not> (book_id r = 1 \<and> chapter_no r = 1 \<and> verse r = 1)"
proof
  assume first: "book_id r = 1 \<and> chapter_no r = 1 \<and> verse r = 1"
  have contiguous: "ordinals_contiguous table" and canonical: "canonical_order table"
    and genesis: "\<forall>x \<in> set table. pk x = 1 \<longrightarrow> book_id x = 1 \<and> chapter_no x = 1 \<and> verse x = 1"
    using assms(1) by (simp_all add: fully_populated_def)
  have "pk r \<in> {1..int (length table)}"
    using contiguous_pk_range [OF contiguous] assms(2) by blast
  then have "1 \<in> {1..int (length table)}" by simp
  then have "1 \<in> pk ` set table" by (simp only: contiguous_pk_range [OF contiguous])
  then obtain x where x: "x \<in> set table" "pk x = 1" by auto
  with genesis have "book_id x = 1 \<and> chapter_no x = 1 \<and> verse x = 1" by blast
  with first have same: "(book_id x, chapter_no x, verse x) = (book_id r, chapter_no r, verse r)"
    by simp
  have "inj_on (\<lambda>r. (book_id r, chapter_no r, verse r)) (set table)"
    using canonical_distinct_bcv [OF canonical] by (simp add: distinct_map)
  from inj_onD [OF this same x(1) assms(2)] have "x = r" .
  with x(2) assms(3) show False by simp
qed

text \<open>
  Claim C7. On a table with a complete verse set, for every instance \<open>v\<close> of a stored
  verse, with or without cached attributes (coherent with the table), that is not the verse
  with ordinal 1: \<open>prev_verse\<close> returns an instance \<open>p\<close> of the verse with the preceding
  ordinal, and \<open>next_verse\<close> of \<open>p\<close> returns an instance \<open>w\<close> of the same stored
  record as \<open>v\<close> (the same primary key and fields, which is what the ORM's \<open>==\<close>
  compares).
\<close>

theorem next_verse_of_prev_verse:
  assumes "fully_populated table" and "cache_coherent table v" and "pk (row_of v) \<noteq> 1"
  shows "\<exists>p v' w p'. prev_verse table v = (Inr (Some p), v')
           \<and> pk (row_of p) = pk (row_of v) - 1
           \<and> next_verse table p = (Inr (Some w), p')
           \<and> row_of w = row_of v"
proof -
  obtain r cached_next cached_prev where v: "v = VerseText r cached_next cached_prev"
    by (cases v)
  have contiguous: "ordinals_contiguous table"
    using assms(1) by (simp add: fully_populated_def)
  have stored: "r \<in> set table" and not_first: "pk r \<noteq> 1"
    using assms(2,3) v by simp_all
  have not_genesis: "\<not> (book_id r = 1 \<and> chapter_no r = 1 \<and> verse r = 1)"
    using assms(1) stored not_first by (rule first_verse_unique)
  have unique: "inj_on pk (set table)"
    using contiguous_distinct_pk [OF contiguous] by (simp add: distinct_map)
  obtain result v' where run: "prev_verse table v = (result, v')"
    by (cases "prev_verse table v")
  have "\<exists>p. result = Inr (Some p) \<and> pk (row_of p) = pk r - 1"
  proof (cases cached_prev)
    case (Some cached)
    with assms(2) v not_genesis obtain p
      where "cached = Some p" and "pk (row_of p) = pk r - 1"
      by (cases cached) auto
    with Some v run show ?thesis by (auto simp: prev_verse_def)
  next
    case None
    have "pk r \<in> {1..int (length table)}"
      using contiguous_pk_range [OF contiguous] stored by blast
    with not_first have "pk r - 1 \<in> {1..int (length table)}" by simp
    then have "pk r - 1 \<in> pk ` set table"
      by (simp only: contiguous_pk_range [OF contiguous])
    then obtain q where q: "q \<in> set table" "pk q = pk r - 1" by auto
    have "objects_get (\<lambda>x. pk x = pk r - 1) table = Inr (VerseText q None None)"
      using objects_get_pk [OF contiguous q(1)] q(2) by simp
    with None v run not_genesis q(2) show ?thesis by (auto simp: prev_verse_def)
  qed
  then obtain p where p: "result = Inr (Some p)" "pk (row_of p) = pk r - 1" by blast
  from prev_verse_coherent [OF assms(2) run] p(1) have coherent: "cache_coherent table p"
    by simp
  obtain q cached_next' cached_prev' where p_def: "p = VerseText q cached_next' cached_prev'"
    by (cases p)
  with p(2) have q: "pk q + 1 = pk r" by simp
  obtain result' p' where run': "next_verse table p = (result', p')"
    by (cases "next_verse table p")
  have "\<exists>w. result' = Inr (Some w) \<and> row_of w = r"
  proof (cases cached_next')
    case (Some cached)
    show ?thesis
    proof (cases cached)
      case None
      with Some coherent p_def q stored show ?thesis by auto
    next
      case inner: (Some w)
      with Some coherent p_def q have "pk (row_of w) = pk r" and "cache_coherent table w"
        by simp_all
      then have "row_of w = r"
        using unique stored cache_coherent_row [of table w] by (metis inj_onD)
      with Some inner p_def run' show ?thesis by (auto simp: next_verse_def)
    qed
  next
    case None
    have "objects_get (\<lambda>x. pk x = pk q + 1) table = Inr (VerseText r None None)"
      using objects_get_pk [OF contiguous stored] q by simp
    with None p_def run' show ?thesis by (auto simp: next_verse_def)
  qed
  then obtain w where "result' = Inr (Some w)" and "row_of w = r" by blast
  with run run' p v show ?thesis by simp
qed

theorem next_verse_of_prev_verse_witness:
  "\<exists>p v' w p'.
     prev_verse sample_table
       (VerseText genesis_1_2 None
          (Some (Some (VerseText genesis_1_1 (Some (Some (VerseText genesis_1_2 None None))) None))))
       = (Inr (Some p), v')
     \<and> pk (row_of p) =
         pk (row_of (VerseText genesis_1_2 None
           (Some (Some (VerseText genesis_1_1 (Some (Some (VerseText genesis_1_2 None None))) None))))) - 1
     \<and> next_verse sample_table p = (Inr (Some w), p')
     \<and> row_of w =
         row_of (VerseText genesis_1_2 None
           (Some (Some (VerseText genesis_1_1 (Some (Some (VerseText genesis_1_2 None None))) None))))"
  by (rule next_verse_of_prev_verse [OF sample_table_fully_populated])
     (simp_all add: sample_table_def genesis_1_1_def genesis_1_2_def)

section \<open>The registry of versions\<close>

lemma count_list_distinct:
  "distinct xs \<Longrightarrow> x \<in> set xs \<Longrightarrow> count_list xs x = 1"
proof (induction xs)
  case Nil
  then show ?case by simp
next
  case (Cons a xs)
  show ?case
  proof (cases "a = x")
    case True
    with Cons.prems(1) have "x \<notin> set xs" by simp
    then have "count_list xs x = 0" by (simp add: count_list_0_iff)
    with True show ?thesis by simp
  next
    case False
    with Cons show ?thesis by simp
  qed
qed

lemma register_step_set:
  "set (foldl (\<lambda>registered version.
                 if f version \<notin> set registered then registered @ [f version] else registered)
         acc vs) = set acc \<union> f ` set vs"
  by (induction vs arbitrary: acc) auto

lemma register_step_distinct:
  "distinct acc \<Longrightarrow>
   distinct (foldl (\<lambda>registered version.
                 if f version \<notin> set registered then registered @ [f version] else registered)
         acc vs)"
  by (induction vs arbitrary: acc) auto

lemma register_step_known:
  "f ` set vs \<subseteq> set acc \<Longrightarrow>
   foldl (\<lambda>registered version.
            if f version \<notin> set registered then registered @ [f version] else registered)
         acc vs = acc"
  by (induction vs arbitrary: acc) auto

lemma register_version_versions:
  "versions_of (register_version f st vs) =
   foldl (\<lambda>registered version.
            if f version \<notin> set registered then registered @ [f version] else registered)
         (versions_of st) vs"
  by (simp add: register_version_def versions_of_def)

lemma register_calls_invariant:
  "distinct (versions_of st) \<Longrightarrow>
   distinct (versions_of (foldl (register_version f) st calls))
   \<and> set (versions_of (foldl (register_version f) st calls))
       = set (versions_of st) \<union> f ` set (concat calls)"
proof (induction calls arbitrary: st)
  case Nil
  then show ?case by simp
next
  case (Cons vs calls)
  have "distinct (versions_of (register_version f st vs))"
    using Cons.prems by (simp add: register_version_versions register_step_distinct)
  from Cons.IH [OF this] show ?case
    by (auto simp: register_version_versions register_step_set)
qed

lemma register_calls_Some:
  "calls \<noteq> [] \<Longrightarrow> \<exists>registry. foldl (register_version f) st calls = Some registry"
proof (induction calls rule: rev_induct)
  case Nil
  then show ?case by simp
next
  case (snoc vs calls)
  show ?case by (simp add: register_version_def)
qed

lemma register_calls_known:
  "f ` set (concat again) \<subseteq> set registry \<Longrightarrow>
   foldl (register_version f) (Some registry) again = Some registry"
proof (induction again)
  case Nil
  then show ?case by simp
next
  case (Cons vs again)
  from Cons.prems have now: "f ` set vs \<subseteq> set registry"
    and later: "f ` set (concat again) \<subseteq> set registry" by auto
  from now have "register_version f (Some registry) vs = Some registry"
    by (simp add: register_version_def versions_of_def register_step_known)
  with Cons.IH [OF later] show ?case by simp
qed

text \<open>
  Claim C8. Start from the class without the attribute \<open>versions\<close> and make any sequence
  of \<open>register_version\<close> calls in which \<open>version\<close> occurs at least once. Then the
  registry holds the content type key of \<open>version\<close> exactly once, and any further calls
  that register only versions registered before leave the registry as it is.
\<close>

theorem register_version_idempotent:
  assumes "version \<in> set (concat calls)" and "set (concat again) \<subseteq> set (concat calls)"
  shows "\<exists>registry. foldl (register_version content_type_pk) None calls = Some registry
           \<and> count_list registry (content_type_pk version) = 1
           \<and> foldl (register_version content_type_pk) (Some registry) again = Some registry"
proof -
  from assms(1) have "calls \<noteq> []" by auto
  then obtain registry where run: "foldl (register_version content_type_pk) None calls = Some registry"
    using register_calls_Some by blast
  have "distinct (versions_of None)" by (simp add: versions_of_def)
  from register_calls_invariant [OF this, of content_type_pk calls]
  have unique: "distinct registry"
    and entries: "set registry = content_type_pk ` set (concat calls)"
    by (simp_all add: run versions_of_def)
  from entries assms(1) have "content_type_pk version \<in> set registry" by simp
  with unique have once: "count_list registry (content_type_pk version) = 1"
    by (rule count_list_distinct)
  have "content_type_pk ` set (concat again) \<subseteq> set registry"
    using image_mono [OF assms(2), of content_type_pk] by (simp only: entries)
  then have "foldl (register_version content_type_pk) (Some registry) again = Some registry"
    by (rule register_calls_known)
  with run once show ?thesis by simp
qed

theorem register_version_idempotent_witness:
  "\<exists>registry. foldl (register_version sample_content_type_pk) None [[''KJV''], [''ASV'', ''KJV'']]
                 = Some registry
     \<and> count_list registry (sample_content_type_pk ''KJV'') = 1
     \<and> foldl (register_version sample_content_type_pk) (Some registry) [[''KJV''], [''KJV'']]
         = Some registry"
  by (rule register_version_idempotent) simp_all

end
